theory Spec2Isabelle
  imports Main "HOL-Library.Word" "HOL-Library.Signed_Division"
begin

unbundle bit_operations_syntax

section \<open>Wire records of the FIFO arithmetic service\<close>

text \<open>
  \<^verbatim>\<open>server.c\<close> and \<^verbatim>\<open>client.c\<close> declare the same two packed structs. A \<^verbatim>\<open>char\<close> is a
  byte, \<^verbatim>\<open>int64_t\<close> a 64-bit word, \<^verbatim>\<open>int32_t\<close> and \<^verbatim>\<open>pid_t\<close> (an \<^verbatim>\<open>int\<close> on Linux) a
  32-bit word. A \<^verbatim>\<open>char\<close> array is a list of bytes; the struct declaration fixes its
  length, which the predicates \<open>valid_request\<close> and \<open>valid_response\<close> record.
\<close>

type_synonym byte = "8 word"
type_synonym int64_t = "64 word"
type_synonym int32_t = "32 word"
type_synonym pid_t = "32 word"

definition RESP_NAME_MAX :: nat where
  "RESP_NAME_MAX = 128"

definition OP_MAX :: nat where
  "OP_MAX = 4"

definition ERROR_MAX :: nat where
  \<comment> \<open>\<^verbatim>\<open>sizeof(rp->error)\<close>, from \<^verbatim>\<open>char error[128]\<close>\<close>
  "ERROR_MAX = 128"

record request_msg_t =
  operation :: "byte list"
  operand1 :: int64_t
  operand2 :: int64_t
  client_pid :: pid_t
  resp_fifo :: "byte list"

record response_msg_t =
  result :: int64_t
  success :: int32_t
  error :: "byte list"

definition valid_request :: "request_msg_t \<Rightarrow> bool" where
  "valid_request rq \<longleftrightarrow>
     length (operation rq) = OP_MAX \<and> length (resp_fifo rq) = RESP_NAME_MAX"

definition valid_response :: "response_msg_t \<Rightarrow> bool" where
  "valid_response rp \<longleftrightarrow> length (error rp) = ERROR_MAX"

subsection \<open>C strings in byte buffers\<close>

definition cbytes :: "string \<Rightarrow> byte list" where
  \<comment> \<open>the bytes of a string literal, without its terminator\<close>
  "cbytes s = map of_char s"

definition strlen :: "byte list \<Rightarrow> nat" where
  "strlen buf = length (takeWhile (\<lambda>c. c \<noteq> 0) buf)"

definition cstring :: "byte list \<Rightarrow> byte list" where
  \<comment> \<open>what \<^verbatim>\<open>%s\<close> prints of a buffer: the bytes before the first NUL\<close>
  "cstring buf = takeWhile (\<lambda>c. c \<noteq> 0) buf"

definition memcmp_eq :: "byte list \<Rightarrow> byte list \<Rightarrow> nat \<Rightarrow> bool" where
  \<comment> \<open>\<^verbatim>\<open>memcmp(p, q, n) == 0\<close>\<close>
  "memcmp_eq p q n \<longleftrightarrow> take n p = take n q"

definition snprintf_lit :: "byte list \<Rightarrow> nat \<Rightarrow> string \<Rightarrow> byte list" where
  \<comment> \<open>\<^verbatim>\<open>snprintf(buf, size, "literal")\<close>: at most \<open>sz - 1\<close> bytes of the literal, then
      a NUL; the bytes of \<open>buf\<close> after that are left as they were\<close>
  "snprintf_lit buf sz s =
     (if sz = 0 then buf
      else let k = min (length s) (sz - 1)
           in take k (cbytes s) @ [0] @ drop (Suc k) buf)"

section \<open>The worker's arithmetic: \<^verbatim>\<open>compute\<close>\<close>

text \<open>
  Signed 64-bit arithmetic is modelled as the machine performs it. Addition, subtraction
  and multiplication are taken modulo \<open>2 ^ 64\<close> (the operations of \<open>64 word\<close>). The
  quotient of C's \<^verbatim>\<open>/\<close> truncates towards zero; it exists as an \<^verbatim>\<open>int64_t\<close> for every
  pair of operands except a zero divisor and \<^verbatim>\<open>INT64_MIN / -1\<close>, whose quotient
  \<open>2 ^ 63\<close> is not representable: C leaves both undefined and the division instruction
  faults, so \<open>c_div64\<close> returns \<open>None\<close> there and the process that evaluates it is
  killed before it produces a response.
\<close>

definition INT64_MIN :: int64_t where
  "INT64_MIN = word_of_int (- (2 ^ 63))"

definition c_div64 :: "int64_t \<Rightarrow> int64_t \<Rightarrow> int64_t option" where
  "c_div64 a b =
     (if b = 0 \<or> (a = INT64_MIN \<and> b = - 1) then None
      else Some (word_of_int (sint a sdiv sint b)))"

text \<open>
  \<^verbatim>\<open>compute(rq, rp)\<close> fills the response \<open>rp\<close> the caller passes in: the forked worker
  passes a zeroed struct, the fork-failure path of the server an uninitialised one, so
  the incoming response is a parameter. \<open>None\<close> is the faulting division.
\<close>

definition compute :: "request_msg_t \<Rightarrow> response_msg_t \<Rightarrow> response_msg_t option" where
  "compute rq rp0 =
     (let rp = rp0\<lparr>success := 1, error := (error rp0)[0 := 0]\<rparr>;
          a = operand1 rq;
          b = operand2 rq
      in if memcmp_eq (operation rq) (cbytes ''add'') 3 then Some (rp\<lparr>result := a + b\<rparr>)
         else if memcmp_eq (operation rq) (cbytes ''sub'') 3 then Some (rp\<lparr>result := a - b\<rparr>)
         else if memcmp_eq (operation rq) (cbytes ''mul'') 3 then Some (rp\<lparr>result := a * b\<rparr>)
         else if memcmp_eq (operation rq) (cbytes ''div'') 3 then
           (if b = 0
            then Some (rp\<lparr>success := 0,
                           error := snprintf_lit (error rp) ERROR_MAX ''Divide by zero''\<rparr>)
            else (case c_div64 a b of
                    None \<Rightarrow> None
                  | Some q \<Rightarrow> Some (rp\<lparr>result := q\<rparr>)))
         else Some (rp\<lparr>success := 0,
                        error := snprintf_lit (error rp) ERROR_MAX ''Invalid operation''\<rparr>))"


section \<open>Wire codec: the bytes of the packed structs\<close>

text \<open>
  Neither program has an encoder of its own: the client sends a request with
  \<^verbatim>\<open>write_full(req_fd, &rq, sizeof(rq))\<close> and the server receives it with
  \<^verbatim>\<open>read_full(req_fd, &rq, sizeof(rq))\<close>, and likewise for the response. The encoding
  is the object representation of the \<^verbatim>\<open>__attribute__((packed))\<close> struct: the fields in
  declaration order without padding, integers in the byte order of the machine (little
  endian here; both ends run on the same host).
\<close>

fun le_bytes :: "nat \<Rightarrow> 'a::len word \<Rightarrow> byte list" where
  "le_bytes 0 w = []"
| "le_bytes (Suc n) w = ucast w # le_bytes n (drop_bit 8 w)"

fun from_le :: "byte list \<Rightarrow> 'a::len word" where
  "from_le [] = 0"
| "from_le (b # bs) = ucast b OR push_bit 8 (from_le bs)"

definition FIXED_REQ_LEN :: nat where
  \<comment> \<open>\<^verbatim>\<open>sizeof(request_msg_t)\<close>\<close>
  "FIXED_REQ_LEN = OP_MAX + 8 + 8 + 4 + RESP_NAME_MAX"

definition FIXED_RESP_LEN :: nat where
  \<comment> \<open>\<^verbatim>\<open>sizeof(response_msg_t)\<close>\<close>
  "FIXED_RESP_LEN = 8 + 4 + ERROR_MAX"

definition encode_request :: "request_msg_t \<Rightarrow> byte list" where
  "encode_request rq =
     operation rq @ le_bytes 8 (operand1 rq) @ le_bytes 8 (operand2 rq)
       @ le_bytes 4 (client_pid rq) @ resp_fifo rq"

definition decode_request :: "byte list \<Rightarrow> request_msg_t" where
  "decode_request bs =
     \<lparr>operation = take OP_MAX bs,
      operand1 = from_le (take 8 (drop OP_MAX bs)),
      operand2 = from_le (take 8 (drop (OP_MAX + 8) bs)),
      client_pid = from_le (take 4 (drop (OP_MAX + 16) bs)),
      resp_fifo = take RESP_NAME_MAX (drop (OP_MAX + 20) bs)\<rparr>"

definition encode_response :: "response_msg_t \<Rightarrow> byte list" where
  "encode_response rp = le_bytes 8 (result rp) @ le_bytes 4 (success rp) @ error rp"

definition decode_response :: "byte list \<Rightarrow> response_msg_t" where
  "decode_response bs =
     \<lparr>result = from_le (take 8 bs),
      success = from_le (take 4 (drop 8 bs)),
      error = take ERROR_MAX (drop 12 bs)\<rparr>"

section \<open>The client builds a request\<close>

definition memcpy :: "byte list \<Rightarrow> byte list \<Rightarrow> nat \<Rightarrow> byte list" where
  \<comment> \<open>\<^verbatim>\<open>memcpy(dst, src, n)\<close>, for \<open>n\<close> within both buffers\<close>
  "memcpy dst src n = take n src @ drop n dst"

definition strncpy :: "byte list \<Rightarrow> byte list \<Rightarrow> nat \<Rightarrow> byte list" where
  \<comment> \<open>\<^verbatim>\<open>strncpy(dst, src, n)\<close>: the string of \<open>src\<close>, cut at \<open>n\<close> bytes, then NULs up to
      \<open>n\<close> bytes in all\<close>
  "strncpy dst src n =
     (let k = min n (strlen src)
      in take k src @ replicate (n - k) 0 @ drop n dst)"

definition memset_request :: request_msg_t where
  \<comment> \<open>\<^verbatim>\<open>memset(&rq, 0, sizeof(rq))\<close>\<close>
  "memset_request =
     \<lparr>operation = replicate OP_MAX 0, operand1 = 0, operand2 = 0, client_pid = 0,
      resp_fifo = replicate RESP_NAME_MAX 0\<rparr>"

definition memset_response :: response_msg_t where
  \<comment> \<open>\<^verbatim>\<open>memset(&rp, 0, sizeof(rp))\<close>\<close>
  "memset_response = \<lparr>result = 0, success = 0, error = replicate ERROR_MAX 0\<rparr>"

text \<open>
  Lines 106 to 110 of \<^verbatim>\<open>client.c\<close>. \<open>line\<close> is the buffer the operation was typed
  into, \<open>a\<close> and \<open>b\<close> the operands \<^verbatim>\<open>scanf\<close> read, \<open>pid\<close> the result of \<^verbatim>\<open>getpid()\<close>
  and \<open>path\<close> the buffer that holds the name of the client's response FIFO.
\<close>

definition build_request ::
  "byte list \<Rightarrow> int64_t \<Rightarrow> int64_t \<Rightarrow> pid_t \<Rightarrow> byte list \<Rightarrow> request_msg_t" where
  "build_request line a b pid path =
     (let rq = memset_request;
          rq = rq\<lparr>operation :=
                 memcpy (operation rq) line
                   (if OP_MAX < strlen line then OP_MAX else strlen line)\<rparr>;
          rq = rq\<lparr>operand1 := a, operand2 := b, client_pid := pid\<rparr>
      in rq\<lparr>resp_fifo := strncpy (resp_fifo rq) path (RESP_NAME_MAX - 1)\<rparr>)"

section \<open>Exact-length reads and writes\<close>

text \<open>
  A descriptor open for reading is the list of what its future \<^verbatim>\<open>read\<close> calls meet:
  \<open>Deliver bs\<close> are bytes that have arrived (\<open>Deliver []\<close> is end of file: every writer
  has closed), \<open>Read_error e\<close> a call that fails with \<^verbatim>\<open>errno\<close> \<open>e\<close>. A call asks for at
  most \<open>c\<close> bytes; what it does not take stays in the descriptor. With nothing left to
  meet, the call blocks for ever: \<open>None\<close>.
\<close>

datatype errno = EINTR | Other_errno nat

datatype read_event = Deliver "byte list" | Read_error errno

datatype read_ret = Read_count "byte list" | Read_failed errno

fun sys_read :: "read_event list \<Rightarrow> nat \<Rightarrow> (read_ret \<times> read_event list) option" where
  "sys_read [] c = None"
| "sys_read (Read_error e # fd) c = Some (Read_failed e, fd)"
| "sys_read (Deliver bs # fd) c =
     (if length bs \<le> c then Some (Read_count bs, fd)
      else Some (Read_count (take c bs), Deliver (drop c bs) # fd))"

definition store :: "byte list \<Rightarrow> nat \<Rightarrow> byte list \<Rightarrow> byte list" where
  \<comment> \<open>the buffer after \<open>bs\<close> was written at offset \<open>off\<close>\<close>
  "store buf off bs = take off buf @ bs @ drop (off + length bs) buf"

record read_result =
  rd_ret :: int
  rd_errno :: errno
  rd_buf :: "byte list"
  rd_fd :: "read_event list"

lemma sys_read_count_shrinks:
  assumes "sys_read fd c = Some (Read_count bs, fd')" and "bs \<noteq> []"
  shows "length fd' + (c - length bs) < length fd + c"
proof (cases fd)
  case Nil
  with assms show ?thesis by simp
next
  case (Cons ev es)
  with assms show ?thesis
    by (cases ev) (auto split: if_splits)
qed

lemma sys_read_failed_shrinks:
  assumes "sys_read fd c = Some (Read_failed e, fd')"
  shows "length fd' < length fd"
proof (cases fd)
  case Nil
  with assms show ?thesis by simp
next
  case (Cons ev es)
  with assms show ?thesis
    by (cases ev) (auto split: if_splits)
qed

function read_full_loop ::
  "read_event list \<Rightarrow> byte list \<Rightarrow> nat \<Rightarrow> nat \<Rightarrow> errno \<Rightarrow> read_result option" where
  "read_full_loop fd buf n off en =
     (if off < n then
        (case sys_read fd (n - off) of
           None \<Rightarrow> None
         | Some (Read_count bs, fd') \<Rightarrow>
             if length bs = 0
             then Some \<lparr>rd_ret = int off, rd_errno = en, rd_buf = buf, rd_fd = fd'\<rparr>
             else read_full_loop fd' (store buf off bs) n (off + length bs) en
         | Some (Read_failed e, fd') \<Rightarrow>
             if e = EINTR then read_full_loop fd' buf n off e
             else Some \<lparr>rd_ret = - 1, rd_errno = e, rd_buf = buf, rd_fd = fd'\<rparr>)
      else Some \<lparr>rd_ret = int off, rd_errno = en, rd_buf = buf, rd_fd = fd\<rparr>)"
  by pat_completeness auto
termination
proof (relation "measure (\<lambda>(fd, buf, n, off, en). length fd + (n - off))")
  show "wf (measure (\<lambda>(fd, buf, n, off, en). length fd + (n - off)))"
    by simp
next
  fix fd :: "read_event list" and buf :: "byte list" and n off :: nat and en :: errno
    and x2 :: "read_ret \<times> read_event list" and x1 fd' bs
  assume "off < n" and "sys_read fd (n - off) = Some x2" and "(x1, fd') = x2"
    and "x1 = Read_count bs" and "length bs \<noteq> 0"
  then have "sys_read fd (n - off) = Some (Read_count bs, fd')" and "bs \<noteq> []"
    by auto
  from sys_read_count_shrinks [OF this]
  show "((fd', store buf off bs, n, off + length bs, en), fd, buf, n, off, en)
      \<in> measure (\<lambda>(fd, buf, n, off, en). length fd + (n - off))"
    by simp
next
  fix fd :: "read_event list" and buf :: "byte list" and n off :: nat and en :: errno
    and x2 :: "read_ret \<times> read_event list" and x1 fd' e
  assume "off < n" and "sys_read fd (n - off) = Some x2" and "(x1, fd') = x2"
    and "x1 = Read_failed e" and "e = EINTR"
  then have "sys_read fd (n - off) = Some (Read_failed e, fd')"
    by auto
  from sys_read_failed_shrinks [OF this]
  show "((fd', buf, n, off, e), fd, buf, n, off, en)
      \<in> measure (\<lambda>(fd, buf, n, off, en). length fd + (n - off))"
    by simp
qed

definition read_full ::
  "read_event list \<Rightarrow> byte list \<Rightarrow> nat \<Rightarrow> errno \<Rightarrow> read_result option" where
  \<comment> \<open>\<^verbatim>\<open>read_full(fd, buf, n)\<close>, entered with \<^verbatim>\<open>errno\<close> \<open>en\<close>\<close>
  "read_full fd buf n en = read_full_loop fd buf n 0 en"


text \<open>
  A descriptor open for writing is the list of what its future \<^verbatim>\<open>write\<close> calls meet:
  \<open>Accept k\<close> takes at most \<open>k\<close> of the bytes offered, \<open>Write_error e\<close> fails. The
  bytes taken are appended to the pipe. \<open>write_full_loop\<close> returns the pipe together
  with the result of the call, \<open>None\<close> when it blocks for ever.
\<close>

datatype write_event = Accept nat | Write_error errno

datatype write_ret = Write_count "byte list" | Write_failed errno

fun sys_write :: "write_event list \<Rightarrow> byte list \<Rightarrow> (write_ret \<times> write_event list) option" where
  "sys_write [] bs = None"
| "sys_write (Write_error e # fd) bs = Some (Write_failed e, fd)"
| "sys_write (Accept k # fd) bs = Some (Write_count (take k bs), fd)"

record write_result =
  wr_ret :: int
  wr_errno :: errno
  wr_fd :: "write_event list"

lemma sys_write_shrinks:
  assumes "sys_write fd bs = Some (w, fd')"
  shows "length fd' < length fd"
proof (cases fd)
  case Nil
  with assms show ?thesis by simp
next
  case (Cons ev es)
  with assms show ?thesis by (cases ev) auto
qed

function write_full_loop ::
  "write_event list \<Rightarrow> byte list \<Rightarrow> byte list \<Rightarrow> nat \<Rightarrow> nat \<Rightarrow> errno
     \<Rightarrow> byte list \<times> write_result option" where
  "write_full_loop fd pipe buf n off en =
     (if off < n then
        (case sys_write fd (take (n - off) (drop off buf)) of
           None \<Rightarrow> (pipe, None)
         | Some (Write_count ws, fd') \<Rightarrow>
             write_full_loop fd' (pipe @ ws) buf n (off + length ws) en
         | Some (Write_failed e, fd') \<Rightarrow>
             if e = EINTR then write_full_loop fd' pipe buf n off e
             else (pipe, Some \<lparr>wr_ret = - 1, wr_errno = e, wr_fd = fd'\<rparr>))
      else (pipe, Some \<lparr>wr_ret = int off, wr_errno = en, wr_fd = fd\<rparr>))"
  by pat_completeness auto
termination
  by (relation "measure (\<lambda>(fd, pipe, buf, n, off, en). length fd)")
     (auto dest: sys_write_shrinks)

definition write_full ::
  "write_event list \<Rightarrow> byte list \<Rightarrow> nat \<Rightarrow> errno \<Rightarrow> byte list \<times> write_result option" where
  \<comment> \<open>\<^verbatim>\<open>write_full(fd, buf, n)\<close> into an empty pipe, entered with \<^verbatim>\<open>errno\<close> \<open>en\<close>\<close>
  "write_full fd buf n en = write_full_loop fd [] buf n 0 en"

section \<open>The server: worker and dispatch loop\<close>

text \<open>
  What a process does to the outside is its trace of actions. \<open>Open_resp p\<close> is
  \<^verbatim>\<open>open(rq.resp_fifo, O_WRONLY)\<close> on the path \<open>p\<close>, \<open>Write_resp bs\<close> the bytes one
  \<^verbatim>\<open>write_full\<close> put into that FIFO, \<open>Spawn rq\<close> a successful \<^verbatim>\<open>fork()\<close> whose child
  handles its copy of \<open>rq\<close>. \<open>Print\<close> and \<open>Log\<close> are the lines for standard output
  and \<^verbatim>\<open>server.log\<close>, kept by their kind.
\<close>

datatype log_msg =
    Log_partial int
  | Log_recv request_msg_t
  | Log_fork_failed errno
  | Log_open_failed "byte list" errno
  | Log_write_failed errno

datatype print_msg =
    Print_recv request_msg_t
  | Print_result request_msg_t int64_t
  | Print_error request_msg_t "byte list"
  | Print_open_failed "byte list" errno
  | Print_write_failed "byte list" errno
  | Print_sent "byte list"

datatype action =
    Log log_msg
  | Print print_msg
  | Open_resp "byte list"
  | Write_resp "byte list"
  | Close_resp
  | Spawn request_msg_t
  | Close_req
  | Open_req

datatype open_ret = Opened "write_event list" | Open_failed errno | Open_blocks

datatype proc_end = Exited nat | Killed_by_fault | Blocked_for_ever

text \<open>
  The child branch of \<^verbatim>\<open>main\<close> (\<^verbatim>\<open>cpid == 0\<close>, lines 180 to 221 of \<^verbatim>\<open>server.c\<close>), run
  on the request \<open>rq\<close>; \<open>opn\<close> is what the \<^verbatim>\<open>open\<close> of the response FIFO meets and
  \<open>en\<close> the \<^verbatim>\<open>errno\<close> the child starts with.
\<close>

definition worker :: "request_msg_t \<Rightarrow> open_ret \<Rightarrow> errno \<Rightarrow> proc_end \<times> action list" where
  "worker rq opn en =
     (case compute rq memset_response of
        None \<Rightarrow> (Killed_by_fault, [])
      | Some rp \<Rightarrow>
          let path = cstring (resp_fifo rq);
              tr = [Print (if success rp \<noteq> 0 then Print_result rq (result rp)
                           else Print_error rq (cstring (error rp)))]
          in (case opn of
                Open_blocks \<Rightarrow> (Blocked_for_ever, tr @ [Open_resp path])
              | Open_failed e \<Rightarrow>
                  (Exited 0,
                   tr @ [Open_resp path, Log (Log_open_failed path e),
                         Print (Print_open_failed path e)])
              | Opened wfd \<Rightarrow>
                  (case write_full wfd (encode_response rp) FIXED_RESP_LEN en of
                     (sent, None) \<Rightarrow>
                       (Blocked_for_ever, tr @ [Open_resp path, Write_resp sent])
                   | (sent, Some w) \<Rightarrow>
                       (Exited 0,
                        tr @ [Open_resp path, Write_resp sent]
                          @ (if wr_ret w < 0
                             then [Log (Log_write_failed (wr_errno w)),
                                   Print (Print_write_failed path (wr_errno w))]
                             else [Print (Print_sent path)])
                          @ [Close_resp]))))"

text \<open>
  One pass through the body of \<^verbatim>\<open>for(;;)\<close> in \<^verbatim>\<open>main\<close> of \<^verbatim>\<open>server.c\<close>, as the parent
  runs it. The environment of the pass: whether a signal has set
  \<^verbatim>\<open>stop_requested\<close>, the bytes the uninitialised \<^verbatim>\<open>rq\<close> and \<^verbatim>\<open>rp\<close> hold, whether
  reopening the request FIFO succeeds, what \<^verbatim>\<open>fork\<close> returns to the parent, and what
  the \<^verbatim>\<open>open\<close> of the response FIFO meets on the fork-failure path.
\<close>

datatype fork_ret = Fork_failed errno | Fork_parent pid_t

record iter_env =
  stop_requested :: bool
  stack_rq :: "byte list"
  stack_rp :: response_msg_t
  reopen_ok :: bool
  fork_returns :: fork_ret
  resp_open :: open_ret

record server_state =
  req_fd :: "read_event list"
  srv_errno :: errno
  trace :: "action list"

datatype step =
    Continue server_state
  | Break server_state
  | Die server_state
  | Killed server_state
  | Hang server_state

definition emit :: "action list \<Rightarrow> server_state \<Rightarrow> server_state" where
  "emit as s = s\<lparr>trace := trace s @ as\<rparr>"

definition dispatch_iter :: "iter_env \<Rightarrow> server_state \<Rightarrow> step" where
  "dispatch_iter env s0 =
     (if stop_requested env then Break s0
      else case read_full (req_fd s0) (stack_rq env) FIXED_REQ_LEN (srv_errno s0) of
        None \<Rightarrow> Hang s0
      | Some r \<Rightarrow>
          let s = s0\<lparr>req_fd := rd_fd r, srv_errno := rd_errno r\<rparr>
          in if rd_ret r = 0 then
               (if reopen_ok env then Continue (emit [Close_req, Open_req] s)
                else Die (emit [Close_req, Open_req] s))
             else if rd_ret r < 0 then
               (if rd_errno r = EINTR then Continue s else Die s)
             else if nat (rd_ret r) < FIXED_REQ_LEN then
               Continue (emit [Log (Log_partial (rd_ret r))] s)
             else
               let rq = decode_request (rd_buf r);
                   path = cstring (resp_fifo rq);
                   s = emit [Print (Print_recv rq), Log (Log_recv rq)] s
               in (case fork_returns env of
                     Fork_failed e \<Rightarrow>
                       let s = emit [Log (Log_fork_failed e)] (s\<lparr>srv_errno := e\<rparr>)
                       in (case compute rq (stack_rp env) of
                             None \<Rightarrow> Killed s
                           | Some rp \<Rightarrow>
                               (case resp_open env of
                                  Open_blocks \<Rightarrow> Hang (emit [Open_resp path] s)
                                | Open_failed e' \<Rightarrow>
                                    Continue (emit [Open_resp path] (s\<lparr>srv_errno := e'\<rparr>))
                                | Opened wfd \<Rightarrow>
                                    (case write_full wfd (encode_response rp) FIXED_RESP_LEN
                                            (srv_errno s) of
                                       (sent, None) \<Rightarrow>
                                         Hang (emit [Open_resp path, Write_resp sent] s)
                                     | (sent, Some w) \<Rightarrow>
                                         Continue
                                           (emit [Open_resp path, Write_resp sent, Close_resp]
                                              (s\<lparr>srv_errno := wr_errno w\<rparr>)))))
                   | Fork_parent cpid \<Rightarrow> Continue (emit [Spawn rq] s)))"

text \<open>
  The loop itself never ends on its own, so it is run against the environments of its
  first passes: when they are used up the loop is still running, in the state returned
  under \<open>Continue\<close>.
\<close>

fun server_loop :: "iter_env list \<Rightarrow> server_state \<Rightarrow> step" where
  "server_loop [] s = Continue s"
| "server_loop (env # envs) s =
     (case dispatch_iter env s of
        Continue s' \<Rightarrow> server_loop envs s'
      | Break s' \<Rightarrow> Break s'
      | Die s' \<Rightarrow> Die s'
      | Killed s' \<Rightarrow> Killed s'
      | Hang s' \<Rightarrow> Hang s')"

section \<open>Notions of the specification\<close>

definition wrap64 :: "int \<Rightarrow> int" where
  \<comment> \<open>the signed 64-bit value congruent to \<open>k\<close> modulo \<open>2 ^ 64\<close>\<close>
  "wrap64 k = (k + 2 ^ 63) mod 2 ^ 64 - 2 ^ 63"

definition exact_arith :: "string \<Rightarrow> int \<Rightarrow> int \<Rightarrow> int" where
  \<comment> \<open>the exact sum, difference or product of two integers\<close>
  "exact_arith nm x y =
     (if nm = ''add'' then x + y else if nm = ''sub'' then x - y else x * y)"

definition trunc_quot :: "int \<Rightarrow> int \<Rightarrow> int" where
  \<comment> \<open>the exact quotient, truncated towards zero\<close>
  "trunc_quot x y = sgn x * sgn y * (\<bar>x\<bar> div \<bar>y\<bar>)"

fun arrived :: "read_event list \<Rightarrow> byte list" where
  \<comment> \<open>the bytes that reach a reader before the end of the stream or a failing read\<close>
  "arrived [] = []"
| "arrived (Deliver bs # fd) = (if bs = [] then [] else bs @ arrived fd)"
| "arrived (Read_error e # fd) = (if e = EINTR then arrived fd else [])"

datatype stream_end = Peer_closed | Read_fails errno | Pending

fun ending :: "read_event list \<Rightarrow> stream_end" where
  \<comment> \<open>what follows the arrived bytes\<close>
  "ending [] = Pending"
| "ending (Deliver bs # fd) = (if bs = [] then Peer_closed else ending fd)"
| "ending (Read_error e # fd) = (if e = EINTR then ending fd else Read_fails e)"

fun written :: "action list \<Rightarrow> byte list" where
  \<comment> \<open>all bytes a trace put into response FIFOs\<close>
  "written [] = []"
| "written (Write_resp bs # as) = bs @ written as"
| "written (a # as) = written as"

fun opens :: "action list \<Rightarrow> nat" where
  \<comment> \<open>how often a trace opened a response FIFO\<close>
  "opens [] = 0"
| "opens (Open_resp p # as) = Suc (opens as)"
| "opens (a # as) = opens as"

fun spawned :: "action list \<Rightarrow> request_msg_t list" where
  \<comment> \<open>the requests a trace handed to workers\<close>
  "spawned [] = []"
| "spawned (Spawn rq # as) = rq # spawned as"
| "spawned (a # as) = spawned as"


definition op_tag :: "string \<Rightarrow> byte list" where
  \<comment> \<open>the tag of an operation name: its bytes, NUL-padded to \<open>OP_MAX\<close>\<close>
  "op_tag nm = cbytes nm @ replicate (OP_MAX - length nm) 0"

definition rq_of :: "byte list \<Rightarrow> int64_t \<Rightarrow> int64_t \<Rightarrow> request_msg_t" where
  \<comment> \<open>a request with the given tag and operands, from process 0, with an empty path\<close>
  "rq_of tag a b =
     \<lparr>operation = tag, operand1 = a, operand2 = b, client_pid = 0,
      resp_fifo = replicate RESP_NAME_MAX 0\<rparr>"

text \<open>
  While the server runs it keeps \<^verbatim>\<open>dummy_w\<close>, a write descriptor of its own on the
  request FIFO (line 138 of \<^verbatim>\<open>server.c\<close>, closed only by \<^verbatim>\<open>cleanup\<close>), so the FIFO
  always has a writer and no \<^verbatim>\<open>read\<close> of it meets end of file.
\<close>

definition dummy_w_held :: "read_event list \<Rightarrow> bool" where
  "dummy_w_held fd \<longleftrightarrow> Deliver [] \<notin> set fd"

definition sample_request :: "string \<Rightarrow> int64_t \<Rightarrow> int64_t \<Rightarrow> request_msg_t" where
  \<comment> \<open>the request the client with process id 77 sends for an operation and two operands\<close>
  "sample_request nm a b =
     \<lparr>operation = op_tag nm, operand1 = a, operand2 = b, client_pid = 77,
      resp_fifo = cbytes ''/tmp/arith_resp_77.fifo'' @ replicate 105 0\<rparr>"

definition sample_env :: iter_env where
  \<comment> \<open>a pass of the loop with no stop signal in which \<^verbatim>\<open>fork\<close> succeeds\<close>
  "sample_env =
     \<lparr>stop_requested = False, stack_rq = replicate FIXED_REQ_LEN 0,
      stack_rp = memset_response, reopen_ok = True,
      fork_returns = Fork_parent 4711, resp_open = Open_blocks\<rparr>"

section \<open>Properties of \<^verbatim>\<open>compute\<close>\<close>

lemma sint_wrap64: "sint (word_of_int k :: int64_t) = wrap64 k"
  by (simp add: wrap64_def int_word_sint)

lemma cstring_update0 [simp]: "cstring (xs[0 := 0]) = []"
  by (cases xs) (simp_all add: cstring_def)

lemma cbytes_simps [simp]:
  "cbytes ''add'' = [97, 100, 100]"
  "cbytes ''sub'' = [115, 117, 98]"
  "cbytes ''mul'' = [109, 117, 108]"
  "cbytes ''div'' = [100, 105, 118]"
  by (simp_all add: cbytes_def)

lemma cstring_snprintf_divz:
  "cstring (snprintf_lit buf ERROR_MAX ''Divide by zero'') = cbytes ''Divide by zero''"
  by (simp add: snprintf_lit_def ERROR_MAX_def cstring_def cbytes_def)

lemma cstring_snprintf_inval:
  "cstring (snprintf_lit buf ERROR_MAX ''Invalid operation'') = cbytes ''Invalid operation''"
  by (simp add: snprintf_lit_def ERROR_MAX_def cstring_def cbytes_def)

lemma sint_eq_0_iff64: "sint (b :: int64_t) = 0 \<longleftrightarrow> b = 0"
  by (fact signed_eq_0_iff)

lemma sint_INT64_MIN: "sint INT64_MIN = - (2 ^ 63)"
  by (simp add: INT64_MIN_def)

lemma sint_eq_min_iff: "sint (a :: int64_t) = - (2 ^ 63) \<longleftrightarrow> a = INT64_MIN"
proof
  assume "sint a = - (2 ^ 63)"
  then have "sint a = sint INT64_MIN" by (simp add: sint_INT64_MIN)
  then show "a = INT64_MIN" by (rule signed_word_eqI)
qed (simp add: sint_INT64_MIN)

lemma sint_eq_m1_iff: "sint (b :: int64_t) = - 1 \<longleftrightarrow> b = - 1"
proof
  assume "sint b = - 1"
  then have "sint b = sint (- 1 :: int64_t)" by simp
  then show "b = - 1" by (rule signed_word_eqI)
qed simp

lemma trunc_quot_fits:
  fixes x y :: int
  assumes x: "- (2 ^ 63) \<le> x" "x < 2 ^ 63" and y: "y \<noteq> 0"
    and ne: "\<not> (x = - (2 ^ 63) \<and> y = - 1)"
  shows "- (2 ^ 63) \<le> trunc_quot x y \<and> trunc_quot x y < 2 ^ 63"
proof -
  let ?q = "\<bar>x\<bar> div \<bar>y\<bar>"
  have q0: "0 \<le> ?q" using y by (simp add: pos_imp_zdiv_nonneg_iff)
  have qx: "?q \<le> \<bar>x\<bar>"
    using zdiv_mono2 [of "\<bar>x\<bar>" 1 "\<bar>y\<bar>"] y by simp
  have ax: "\<bar>x\<bar> \<le> 2 ^ 63" using x by simp
  have abs_tq: "\<bar>trunc_quot x y\<bar> \<le> ?q"
    by (simp add: trunc_quot_def abs_mult abs_sgn_eq q0)
  have lower: "- (2 ^ 63) \<le> trunc_quot x y"
    using abs_tq qx ax by linarith
  have upper: "trunc_quot x y < 2 ^ 63"
  proof (rule ccontr)
    assume "\<not> trunc_quot x y < 2 ^ 63"
    then have big: "2 ^ 63 \<le> trunc_quot x y" by simp
    with abs_tq qx ax have qeq: "?q = 2 ^ 63" and xeq: "\<bar>x\<bar> = 2 ^ 63" by linarith+
    from xeq x have xmin: "x = - (2 ^ 63)" by linarith
    have "\<bar>y\<bar> = 1"
    proof (rule ccontr)
      assume "\<bar>y\<bar> \<noteq> 1"
      with y have "2 \<le> \<bar>y\<bar>" by linarith
      then have "\<bar>x\<bar> div \<bar>y\<bar> \<le> \<bar>x\<bar> div 2"
        by (intro zdiv_mono2) simp_all
      with xeq qeq show False by simp
    qed
    then have "y = 1 \<or> y = - 1" by linarith
    with ne xmin have "y = 1" by blast
    with xmin have "trunc_quot x y = - (2 ^ 63)" by (simp add: trunc_quot_def)
    with big show False by simp
  qed
  from lower upper show ?thesis ..
qed

lemma sint_c_div64:
  fixes a b :: int64_t
  assumes "b \<noteq> 0" "\<not> (a = INT64_MIN \<and> b = - 1)"
  shows "\<exists>q. c_div64 a b = Some q \<and> sint q = trunc_quot (sint a) (sint b)"
proof -
  have x: "- (2 ^ 63) \<le> sint a" "sint a < 2 ^ 63"
    using sint_ge [of a] sint_lt [of a] by simp_all
  have y: "sint b \<noteq> 0" using assms(1) by (simp add: sint_eq_0_iff64)
  have ne: "\<not> (sint a = - (2 ^ 63) \<and> sint b = - 1)"
    using assms(2) sint_eq_min_iff [of a] sint_eq_m1_iff [of b] by blast
  from trunc_quot_fits [OF x y ne]
  have fits: "- (2 ^ 63) \<le> trunc_quot (sint a) (sint b)" "trunc_quot (sint a) (sint b) < 2 ^ 63"
    by simp_all
  have tq: "sint a sdiv sint b = trunc_quot (sint a) (sint b)"
    by (simp add: trunc_quot_def signed_divide_int_def)
  have "wrap64 (trunc_quot (sint a) (sint b)) = trunc_quot (sint a) (sint b)"
    using fits by (simp add: wrap64_def)
  then have "sint (word_of_int (sint a sdiv sint b) :: int64_t) = trunc_quot (sint a) (sint b)"
    by (simp add: sint_wrap64 tq)
  with assms show ?thesis by (simp add: c_div64_def)
qed



lemma sample_request_operation:
  "operation (sample_request ''add'' a b) = [97, 100, 100, 0]"
  "operation (sample_request ''mul'' a b) = [109, 117, 108, 0]"
  "operation (sample_request ''div'' a b) = [100, 105, 118, 0]"
  by (simp_all add: sample_request_def op_tag_def cbytes_def OP_MAX_def)

lemma sample_request_fields [simp]:
  "operand1 (sample_request nm a b) = a"
  "operand2 (sample_request nm a b) = b"
  "client_pid (sample_request nm a b) = 77"
  "length (resp_fifo (sample_request nm a b)) = 128"
  "drop 126 (resp_fifo (sample_request nm a b)) = [0, 0]"
  by (simp_all add: sample_request_def cbytes_def numeral_2_eq_2)

lemma valid_sample_request:
  "length nm \<le> OP_MAX \<Longrightarrow> valid_request (sample_request nm a b)"
  by (simp add: valid_request_def sample_request_def op_tag_def cbytes_def RESP_NAME_MAX_def)

text \<open>
  C1. For every pair of operands and every request whose operation is add, sub or mul
  (recognised, as \<^verbatim>\<open>compute\<close> does, by its first three bytes), \<open>compute\<close> returns a
  response with \<open>success = 1\<close>, an empty error string, and a result whose signed value
  is the exact sum, difference or product of the signed operands reduced modulo
  \<open>2 ^ 64\<close> into the signed 64-bit range.
\<close>

theorem compute_add_sub_mul_wraps:
  assumes "nm \<in> {''add'', ''sub'', ''mul''}" and "memcmp_eq (operation rq) (cbytes nm) 3"
  shows "\<exists>rp'. compute rq rp = Some rp' \<and> success rp' = 1 \<and> cstring (error rp') = []
     \<and> sint (result rp') = wrap64 (exact_arith nm (sint (operand1 rq)) (sint (operand2 rq)))"
proof -
  have add: "sint (a + b) = wrap64 (sint a + sint b)" for a b :: int64_t
    using sint_wrap64 [of "sint a + sint b"] by simp
  have sub: "sint (a - b) = wrap64 (sint a - sint b)" for a b :: int64_t
    using sint_wrap64 [of "sint a - sint b"] by simp
  have mul: "sint (a * b) = wrap64 (sint a * sint b)" for a b :: int64_t
    using sint_wrap64 [of "sint a * sint b"] by simp
  from assms show ?thesis
    by (auto simp: compute_def memcmp_eq_def exact_arith_def add sub mul Let_def)
qed

theorem compute_add_sub_mul_wraps_witness:
  "''add'' \<in> {''add'', ''sub'', ''mul''}
   \<and> memcmp_eq (operation (rq_of (op_tag ''add'') 9223372036854775807 1)) (cbytes ''add'') 3
   \<and> (\<exists>rp'. compute (rq_of (op_tag ''add'') 9223372036854775807 1) memset_response = Some rp'
         \<and> success rp' = 1 \<and> cstring (error rp') = []
         \<and> sint (result rp') = - 9223372036854775808)"
  using compute_add_sub_mul_wraps [of "''add''" "rq_of (op_tag ''add'') 9223372036854775807 1" memset_response]
  by (simp add: rq_of_def op_tag_def memcmp_eq_def wrap64_def exact_arith_def OP_MAX_def)

text \<open>
  C2, as stated, fails at \<^verbatim>\<open>INT64_MIN / -1\<close>: the divisor is not zero, the exact quotient
  is \<open>2 ^ 63\<close>, and no \<^verbatim>\<open>int64_t\<close> has that value, so no response can carry it; the
  division faults and \<open>compute\<close> produces no response.
\<close>

theorem compute_div_overflow_counterexample:
  "memcmp_eq (operation (rq_of (op_tag ''div'') INT64_MIN (- 1))) (cbytes ''div'') 3
   \<and> operand2 (rq_of (op_tag ''div'') INT64_MIN (- 1)) \<noteq> 0
   \<and> \<not> (\<exists>rp'. compute (rq_of (op_tag ''div'') INT64_MIN (- 1)) memset_response = Some rp'
            \<and> success rp' = 1
            \<and> sint (result rp') = trunc_quot (sint INT64_MIN) (sint (- 1 :: int64_t)))
   \<and> trunc_quot (sint INT64_MIN) (sint (- 1 :: int64_t)) = 2 ^ 63
   \<and> (\<forall>r :: int64_t. sint r < 2 ^ 63)"
proof -
  have "sint r < 2 ^ 63" for r :: int64_t
    using sint_lt [of r] by simp
  then show ?thesis
    by (simp add: rq_of_def op_tag_def memcmp_eq_def compute_def c_div64_def OP_MAX_def
        trunc_quot_def sint_INT64_MIN)
qed

text \<open>
  C2, amended. For a div request whose operands are not the pair \<^verbatim>\<open>INT64_MIN\<close>, \<open>-1\<close>,
  \<open>compute\<close> returns a response; it has \<open>success = 0\<close> with the error string
  \<^verbatim>\<open>Divide by zero\<close> if and only if the second operand is zero; and when the second
  operand is not zero it has \<open>success = 1\<close>, an empty error string and as result the
  quotient of the signed operands truncated towards zero.
\<close>

theorem compute_div_truncates:
  assumes "memcmp_eq (operation rq) (cbytes ''div'') 3"
    and "\<not> (operand1 rq = INT64_MIN \<and> operand2 rq = - 1)"
  shows "\<exists>rp'. compute rq rp = Some rp'
     \<and> ((success rp' = 0 \<and> cstring (error rp') = cbytes ''Divide by zero'') \<longleftrightarrow> operand2 rq = 0)
     \<and> (operand2 rq \<noteq> 0 \<longrightarrow>
          success rp' = 1 \<and> cstring (error rp') = []
          \<and> sint (result rp') = trunc_quot (sint (operand1 rq)) (sint (operand2 rq)))"
proof (cases "operand2 rq = 0")
  case True
  with assms(1) show ?thesis
    by (simp add: compute_def memcmp_eq_def cstring_snprintf_divz)
next
  case False
  from sint_c_div64 [OF False assms(2)] obtain q where
    q: "c_div64 (operand1 rq) (operand2 rq) = Some q"
       "sint q = trunc_quot (sint (operand1 rq)) (sint (operand2 rq))"
    by blast
  with False assms(1) show ?thesis
    by (simp add: compute_def memcmp_eq_def)
qed

theorem compute_div_truncates_witness:
  "(\<exists>rp'. compute (rq_of (op_tag ''div'') 10 0) memset_response = Some rp'
       \<and> success rp' = 0 \<and> cstring (error rp') = cbytes ''Divide by zero'')
   \<and> (\<exists>rp'. compute (rq_of (op_tag ''div'') (- 7) 2) memset_response = Some rp'
       \<and> success rp' = 1 \<and> sint (result rp') = - 3)"
proof -
  have a: "memcmp_eq (operation (rq_of (op_tag ''div'') a b)) (cbytes ''div'') 3" for a b
    by (simp add: rq_of_def op_tag_def memcmp_eq_def OP_MAX_def)
  have b: "\<not> (operand1 (rq_of (op_tag ''div'') 10 0) = INT64_MIN \<and> operand2 (rq_of (op_tag ''div'') 10 0) = - 1)"
    by (simp add: rq_of_def)
  have c: "\<not> (operand1 (rq_of (op_tag ''div'') (- 7) 2) = INT64_MIN \<and> operand2 (rq_of (op_tag ''div'') (- 7) 2) = - 1)"
    by (simp add: rq_of_def)
  show ?thesis
    using compute_div_truncates [OF a b, of memset_response]
      compute_div_truncates [OF a c, of memset_response]
    by (auto simp: rq_of_def trunc_quot_def)
qed

text \<open>
  C3, as stated, fails at the four-byte tag \<^verbatim>\<open>addx\<close>: it is none of the tags of add,
  sub, mul and div, yet \<open>compute\<close> compares three bytes only, takes it for add and
  answers \<open>2 + 3 = 5\<close> with \<open>success = 1\<close>.
\<close>

theorem compute_prefix_tag_counterexample:
  "length (cbytes ''addx'') = OP_MAX
   \<and> cbytes ''addx'' \<notin> {op_tag ''add'', op_tag ''sub'', op_tag ''mul'', op_tag ''div''}
   \<and> (\<exists>rp'. compute (rq_of (cbytes ''addx'') 2 3) memset_response = Some rp'
         \<and> success rp' = 1 \<and> result rp' = 5)
   \<and> \<not> (\<exists>rp'. compute (rq_of (cbytes ''addx'') 2 3) memset_response = Some rp'
         \<and> success rp' = 0 \<and> cstring (error rp') = cbytes ''Invalid operation'')"
  by (simp add: rq_of_def op_tag_def cbytes_def memcmp_eq_def compute_def OP_MAX_def)

text \<open>
  C3, amended. For every request whose operation differs from each of add, sub, mul and
  div within its first three bytes, and for all operands, \<open>compute\<close> returns a response
  with \<open>success = 0\<close> and the error string \<^verbatim>\<open>Invalid operation\<close>.
\<close>

theorem compute_invalid_operation:
  assumes "\<not> memcmp_eq (operation rq) (cbytes ''add'') 3"
    and "\<not> memcmp_eq (operation rq) (cbytes ''sub'') 3"
    and "\<not> memcmp_eq (operation rq) (cbytes ''mul'') 3"
    and "\<not> memcmp_eq (operation rq) (cbytes ''div'') 3"
  shows "\<exists>rp'. compute rq rp = Some rp' \<and> success rp' = 0
     \<and> cstring (error rp') = cbytes ''Invalid operation''"
  using assms by (simp add: compute_def cstring_snprintf_inval)

theorem compute_invalid_operation_witness:
  "\<not> memcmp_eq (operation (rq_of (cbytes ''pow2'') 2 3)) (cbytes ''add'') 3
   \<and> \<not> memcmp_eq (operation (rq_of (cbytes ''pow2'') 2 3)) (cbytes ''sub'') 3
   \<and> \<not> memcmp_eq (operation (rq_of (cbytes ''pow2'') 2 3)) (cbytes ''mul'') 3
   \<and> \<not> memcmp_eq (operation (rq_of (cbytes ''pow2'') 2 3)) (cbytes ''div'') 3
   \<and> (\<exists>rp'. compute (rq_of (cbytes ''pow2'') 2 3) memset_response = Some rp' \<and> success rp' = 0
     \<and> cstring (error rp') = cbytes ''Invalid operation'')"
  using compute_invalid_operation [of "rq_of (cbytes ''pow2'') 2 3" memset_response]
  by (simp add: rq_of_def cbytes_def memcmp_eq_def)




section \<open>Properties of the wire codec\<close>

lemma length_le_bytes [simp]: "length (le_bytes n w) = n"
  by (induction n arbitrary: w) simp_all

lemma from_le_le_bytes: "from_le (le_bytes n w) = take_bit (8 * n) w"
proof (induction n arbitrary: w)
  case 0
  show ?case by simp
next
  case (Suc n)
  have "(ucast (ucast w :: byte) :: 'a word) OR push_bit 8 (take_bit (8 * n) (drop_bit 8 w))
      = take_bit (8 * Suc n) w"
    by (rule bit_word_eqI) (auto simp: bit_simps)
  with Suc show ?case by simp
qed

lemma from_le_le_bytes64 [simp]: "from_le (le_bytes 8 (w :: 64 word)) = w"
  using take_bit_length_eq [of w] by (simp add: from_le_le_bytes)

lemma from_le_le_bytes32 [simp]: "from_le (le_bytes 4 (w :: 32 word)) = w"
  using take_bit_length_eq [of w] by (simp add: from_le_le_bytes)

lemma length_encode_request:
  "valid_request rq \<Longrightarrow> length (encode_request rq) = FIXED_REQ_LEN"
  by (simp add: valid_request_def encode_request_def FIXED_REQ_LEN_def)

lemma length_encode_response:
  "valid_response rp \<Longrightarrow> length (encode_response rp) = FIXED_RESP_LEN"
  by (simp add: valid_response_def encode_response_def FIXED_RESP_LEN_def)

lemma decode_encode_request:
  "valid_request rq \<Longrightarrow> decode_request (encode_request rq @ junk) = rq"
  by (simp add: valid_request_def encode_request_def decode_request_def)

lemma decode_encode_response:
  "valid_response rp \<Longrightarrow> decode_response (encode_response rp @ junk) = rp"
  by (simp add: valid_response_def encode_response_def decode_response_def)

text \<open>
  C4. Decoding the fixed-length encoding of a valid request gives the request back,
  field by field, and likewise for a valid response; the encoding of a request always
  has \<open>FIXED_REQ_LEN = 152\<close> bytes and that of a response \<open>FIXED_RESP_LEN = 140\<close>.
  A record is valid when its character arrays have their declared lengths.
\<close>

theorem codec_round_trip:
  "(valid_request rq \<longrightarrow>
      length (encode_request rq) = FIXED_REQ_LEN \<and> decode_request (encode_request rq) = rq)
   \<and> (valid_response rp \<longrightarrow>
      length (encode_response rp) = FIXED_RESP_LEN \<and> decode_response (encode_response rp) = rp)
   \<and> FIXED_REQ_LEN = 152 \<and> FIXED_RESP_LEN = 140"
  using decode_encode_request [of rq "[]"] decode_encode_response [of rp "[]"]
  by (simp add: length_encode_request length_encode_response FIXED_REQ_LEN_def
      FIXED_RESP_LEN_def OP_MAX_def RESP_NAME_MAX_def ERROR_MAX_def)

theorem codec_round_trip_witness:
  "valid_request (rq_of (op_tag ''add'') 6 9)
   \<and> length (encode_request (rq_of (op_tag ''add'') 6 9)) = 152
   \<and> decode_request (encode_request (rq_of (op_tag ''add'') 6 9)) = rq_of (op_tag ''add'') 6 9
   \<and> valid_response (memset_response\<lparr>result := 15, success := 1\<rparr>)
   \<and> length (encode_response (memset_response\<lparr>result := 15, success := 1\<rparr>)) = 140
   \<and> decode_response (encode_response (memset_response\<lparr>result := 15, success := 1\<rparr>))
       = memset_response\<lparr>result := 15, success := 1\<rparr>"
proof -
  have v1: "valid_request (rq_of (op_tag ''add'') 6 9)"
    by (simp add: valid_request_def rq_of_def op_tag_def OP_MAX_def cbytes_def)
  have v2: "valid_response (memset_response\<lparr>result := 15, success := 1\<rparr>)"
    by (simp add: valid_response_def memset_response_def)
  show ?thesis
    using v1 v2 codec_round_trip [of "rq_of (op_tag ''add'') 6 9"
        "memset_response\<lparr>result := 15, success := 1\<rparr>"]
    by simp
qed

section \<open>Properties of the request the client builds\<close>

lemma strlen_le: "strlen buf \<le> length buf"
  by (simp add: strlen_def length_takeWhile_le)

text \<open>
  C7. Whatever operation line, operands, process id and path the client has, the request
  it builds is valid and encodes to \<open>FIXED_REQ_LEN\<close> bytes; its operation field is the
  copied bytes of the line (at most \<open>OP_MAX\<close>) followed by zero bytes only, and its
  \<open>resp_fifo\<close> field is the copied bytes of the path (at most \<open>RESP_NAME_MAX - 1\<close>)
  followed by zero bytes only.
\<close>

theorem build_request_zero_filled:
  "valid_request (build_request line a b pid path)
   \<and> length (encode_request (build_request line a b pid path)) = FIXED_REQ_LEN
   \<and> take (min OP_MAX (strlen line)) (operation (build_request line a b pid path))
       = take (min OP_MAX (strlen line)) line
   \<and> drop (min OP_MAX (strlen line)) (operation (build_request line a b pid path))
       = replicate (OP_MAX - min OP_MAX (strlen line)) 0
   \<and> take (min (RESP_NAME_MAX - 1) (strlen path)) (resp_fifo (build_request line a b pid path))
       = take (min (RESP_NAME_MAX - 1) (strlen path)) path
   \<and> drop (min (RESP_NAME_MAX - 1) (strlen path)) (resp_fifo (build_request line a b pid path))
       = replicate (RESP_NAME_MAX - min (RESP_NAME_MAX - 1) (strlen path)) 0
   \<and> operand1 (build_request line a b pid path) = a
   \<and> operand2 (build_request line a b pid path) = b
   \<and> client_pid (build_request line a b pid path) = pid"
proof -
  let ?k = "min OP_MAX (strlen line)"
  let ?m = "min (RESP_NAME_MAX - 1) (strlen path)"
  have k: "length (take ?k line) = ?k" using strlen_le [of line] by simp
  have m: "length (take ?m path) = ?m" using strlen_le [of path] by simp
  have op: "operation (build_request line a b pid path) = take ?k line @ replicate (OP_MAX - ?k) 0"
    by (simp add: build_request_def memset_request_def memcpy_def Let_def min_def)
  have "RESP_NAME_MAX - ?m = Suc (RESP_NAME_MAX - 1 - ?m)"
    by (simp add: RESP_NAME_MAX_def)
  then have "replicate (RESP_NAME_MAX - 1 - ?m) (0 :: byte) @ [0]
      = replicate (RESP_NAME_MAX - ?m) 0"
    by (simp add: replicate_append_same)
  then have rf: "resp_fifo (build_request line a b pid path)
      = take ?m path @ replicate (RESP_NAME_MAX - ?m) 0"
    by (simp add: build_request_def memset_request_def strncpy_def Let_def RESP_NAME_MAX_def)
  have valid: "valid_request (build_request line a b pid path)"
    unfolding valid_request_def op rf using k m by (simp add: RESP_NAME_MAX_def)
  have fields: "operand1 (build_request line a b pid path) = a"
    "operand2 (build_request line a b pid path) = b"
    "client_pid (build_request line a b pid path) = pid"
    by (simp_all add: build_request_def Let_def)
  have len: "length (encode_request (build_request line a b pid path)) = FIXED_REQ_LEN"
    using valid by (rule length_encode_request)
  have op_parts: "take ?k (take ?k line @ replicate (OP_MAX - ?k) 0) = take ?k line"
    "drop ?k (take ?k line @ replicate (OP_MAX - ?k) 0) = replicate (OP_MAX - ?k) 0"
    using k by simp_all
  have rf_parts: "take ?m (take ?m path @ replicate (RESP_NAME_MAX - ?m) 0) = take ?m path"
    "drop ?m (take ?m path @ replicate (RESP_NAME_MAX - ?m) 0) = replicate (RESP_NAME_MAX - ?m) 0"
    using m by simp_all
  show ?thesis
    unfolding op rf op_parts rf_parts using valid len fields unfolding op rf by simp
qed

text \<open>The sample request for add is what \<open>build_request\<close> makes of the line \<^verbatim>\<open>add\<close>.\<close>

lemma sample_request_built:
  "build_request (cbytes ''add'' @ replicate 61 0) a b 77
     (cbytes ''/tmp/arith_resp_77.fifo'' @ replicate 105 0) = sample_request ''add'' a b"
proof -
  have "(105 :: nat) = Suc 104" by simp
  then have "replicate 105 (0 :: byte) = replicate 104 0 @ [0]"
    by (simp only: replicate_Suc replicate_append_same)
  then show ?thesis
    by (simp add: sample_request_def build_request_def memset_request_def memcpy_def
        strncpy_def strlen_def cbytes_def op_tag_def OP_MAX_def RESP_NAME_MAX_def Let_def)
qed

section \<open>Properties of \<^verbatim>\<open>read_full\<close>\<close>

text \<open>One pass of the loop, by what the descriptor holds next.\<close>

lemma read_full_loop_done [simp]:
  "\<not> off < n \<Longrightarrow> read_full_loop fd buf n off en
     = Some \<lparr>rd_ret = int off, rd_errno = en, rd_buf = buf, rd_fd = fd\<rparr>"
  by simp

lemma read_full_loop_Nil [simp]:
  "off < n \<Longrightarrow> read_full_loop [] buf n off en = None"
  by simp

lemma read_full_loop_error:
  "off < n \<Longrightarrow> read_full_loop (Read_error e # fd) buf n off en
     = (if e = EINTR then read_full_loop fd buf n off e
        else Some \<lparr>rd_ret = - 1, rd_errno = e, rd_buf = buf, rd_fd = fd\<rparr>)"
  by simp

lemma read_full_loop_eof:
  "off < n \<Longrightarrow> read_full_loop (Deliver [] # fd) buf n off en
     = Some \<lparr>rd_ret = int off, rd_errno = en, rd_buf = buf, rd_fd = fd\<rparr>"
  by simp

lemma read_full_loop_chunk:
  "off < n \<Longrightarrow> bs \<noteq> [] \<Longrightarrow> length bs \<le> n - off \<Longrightarrow>
   read_full_loop (Deliver bs # fd) buf n off en
     = read_full_loop fd (store buf off bs) n (off + length bs) en"
  by simp

lemma read_full_loop_long_chunk:
  "off < n \<Longrightarrow> n - off < length bs \<Longrightarrow>
   read_full_loop (Deliver bs # fd) buf n off en
     = Some \<lparr>rd_ret = int n, rd_errno = en, rd_buf = store buf off (take (n - off) bs),
            rd_fd = Deliver (drop (n - off) bs) # fd\<rparr>"
  by (subst read_full_loop.simps) (simp add: min_def)

declare read_full_loop.simps [simp del]

lemma read_full_loop_ret:
  "off \<le> n \<Longrightarrow>
   map_option rd_ret (read_full_loop fd buf n off en) =
     (if n - off \<le> length (arrived fd) then Some (int n)
      else case ending fd of
             Peer_closed \<Rightarrow> Some (int (off + length (arrived fd)))
           | Read_fails e \<Rightarrow> Some (- 1)
           | Pending \<Rightarrow> None)"
proof (induction fd arbitrary: buf off en)
  case Nil
  then show ?case by (cases "off < n") (auto split: stream_end.splits)
next
  case (Cons ev fd)
  show ?case
  proof (cases "off < n")
    case False
    with Cons.prems show ?thesis by simp
  next
    case True
    show ?thesis
    proof (cases ev)
      case (Read_error e)
      show ?thesis
      proof (cases "e = EINTR")
        case True
        with \<open>off < n\<close> Read_error Cons.IH [OF Cons.prems, of buf EINTR] show ?thesis
          by (simp add: read_full_loop_error split: stream_end.splits)
      next
        case False
        with \<open>off < n\<close> Read_error show ?thesis
          by (simp add: read_full_loop_error split: stream_end.splits)
      qed
    next
      case (Deliver bs)
      consider "bs = []" | "bs \<noteq> []" "length bs \<le> n - off" | "n - off < length bs"
        by linarith
      then show ?thesis
      proof cases
        case 1
        with True Deliver show ?thesis by (simp add: read_full_loop_eof split: stream_end.splits)
      next
        case 2
        with True have le: "off + length bs \<le> n" by simp
        from 2 True Deliver Cons.IH [OF le, of "store buf off bs" en] show ?thesis
          by (auto simp: read_full_loop_chunk split: stream_end.splits)
      next
        case 3
        then have "bs \<noteq> []" by auto
        with 3 True Deliver show ?thesis
          by (simp add: read_full_loop_long_chunk split: stream_end.splits)
      qed
    qed
  qed
qed

lemma arrived_filter_EINTR:
  "arrived (filter (\<lambda>ev. ev \<noteq> Read_error EINTR) fd) = arrived fd"
  by (induction fd rule: arrived.induct) auto

lemma ending_filter_EINTR:
  "ending (filter (\<lambda>ev. ev \<noteq> Read_error EINTR) fd) = ending fd"
  by (induction fd rule: ending.induct) auto

lemma ending_Read_fails: "ending fd = Read_fails e \<Longrightarrow> e \<noteq> EINTR"
  by (induction fd rule: ending.induct) (auto split: if_splits)

lemma read_full_ret:
  "map_option rd_ret (read_full fd buf n en) =
     (if n \<le> length (arrived fd) then Some (int n)
      else case ending fd of
             Peer_closed \<Rightarrow> Some (int (length (arrived fd)))
           | Read_fails e \<Rightarrow> Some (- 1)
           | Pending \<Rightarrow> None)"
  using read_full_loop_ret [of 0 n fd buf en]
  by (simp add: read_full_def split: stream_end.splits)

text \<open>
  C5. \<open>read_full\<close> over a stream of read outcomes: interrupted reads are invisible in
  what it returns (the stream with every \<^verbatim>\<open>EINTR\<close> removed gives the same return
  value); it returns \<open>n\<close> when at least \<open>n\<close> bytes arrive before the end of the
  stream; it returns the number \<open>k\<close> of arrived bytes, \<open>0 \<le> k < n\<close>, when the peer
  closes after fewer than \<open>n\<close>; and it returns a negative value exactly when a read
  fails with an error other than \<^verbatim>\<open>EINTR\<close> before \<open>n\<close> bytes have arrived.
\<close>

theorem read_full_exact_or_short:
  "map_option rd_ret (read_full (filter (\<lambda>ev. ev \<noteq> Read_error EINTR) fd) buf n en)
     = map_option rd_ret (read_full fd buf n en)
   \<and> (n \<le> length (arrived fd) \<longrightarrow>
        (\<exists>r. read_full fd buf n en = Some r \<and> rd_ret r = int n))
   \<and> (length (arrived fd) < n \<and> ending fd = Peer_closed \<longrightarrow>
        (\<exists>r. read_full fd buf n en = Some r \<and> rd_ret r = int (length (arrived fd))
           \<and> 0 \<le> rd_ret r \<and> rd_ret r < int n))
   \<and> ((\<exists>r. read_full fd buf n en = Some r \<and> rd_ret r < 0)
        \<longleftrightarrow> length (arrived fd) < n \<and> (\<exists>e. e \<noteq> EINTR \<and> ending fd = Read_fails e))"
proof (intro conjI impI)
  show "map_option rd_ret (read_full (filter (\<lambda>ev. ev \<noteq> Read_error EINTR) fd) buf n en)
     = map_option rd_ret (read_full fd buf n en)"
    by (simp only: read_full_ret arrived_filter_EINTR ending_filter_EINTR)
next
  assume "n \<le> length (arrived fd)"
  with read_full_ret [of fd buf n en]
  show "\<exists>r. read_full fd buf n en = Some r \<and> rd_ret r = int n"
    by auto
next
  assume "length (arrived fd) < n \<and> ending fd = Peer_closed"
  with read_full_ret [of fd buf n en]
  show "\<exists>r. read_full fd buf n en = Some r \<and> rd_ret r = int (length (arrived fd))
           \<and> 0 \<le> rd_ret r \<and> rd_ret r < int n"
    by auto
next
  show "(\<exists>r. read_full fd buf n en = Some r \<and> rd_ret r < 0)
        \<longleftrightarrow> length (arrived fd) < n \<and> (\<exists>e. e \<noteq> EINTR \<and> ending fd = Read_fails e)"
    using read_full_ret [of fd buf n en] ending_Read_fails [of fd]
    by (cases "ending fd") (auto split: if_splits)
qed

theorem read_full_exact_or_short_witness:
  "(\<exists>r. read_full [Read_error EINTR, Deliver [1, 2], Read_error EINTR, Deliver [3, 4, 5]]
          [0, 0, 0, 0] 4 (Other_errno 0) = Some r \<and> rd_ret r = 4)
   \<and> (\<exists>r. read_full [Deliver [1, 2], Read_error EINTR, Deliver []]
          [0, 0, 0, 0] 4 (Other_errno 0) = Some r \<and> rd_ret r = 2)
   \<and> (\<exists>r. read_full [Deliver [1], Read_error (Other_errno 5)]
          [0, 0, 0, 0] 4 (Other_errno 0) = Some r \<and> rd_ret r < 0)"
proof (intro conjI)
  have "4 \<le> length (arrived [Read_error EINTR, Deliver [1, 2], Read_error EINTR, Deliver [3, 4, 5]])"
    by simp
  with read_full_exact_or_short
    [of "[Read_error EINTR, Deliver [1, 2], Read_error EINTR, Deliver [3, 4, 5]]"
      "[0, 0, 0, 0]" 4 "Other_errno 0"]
  show "\<exists>r. read_full [Read_error EINTR, Deliver [1, 2], Read_error EINTR, Deliver [3, 4, 5]]
          [0, 0, 0, 0] 4 (Other_errno 0) = Some r \<and> rd_ret r = 4"
    by auto
next
  have "length (arrived [Deliver [1, 2], Read_error EINTR, Deliver []]) = 2"
    and "ending [Deliver [1, 2], Read_error EINTR, Deliver []] = Peer_closed"
    by simp_all
  with read_full_exact_or_short
    [of "[Deliver [1, 2], Read_error EINTR, Deliver []]" "[0, 0, 0, 0]" 4 "Other_errno 0"]
  show "\<exists>r. read_full [Deliver [1, 2], Read_error EINTR, Deliver []]
          [0, 0, 0, 0] 4 (Other_errno 0) = Some r \<and> rd_ret r = 2"
    by auto
next
  have "length (arrived [Deliver [1], Read_error (Other_errno 5)]) = 1"
    and "ending [Deliver [1], Read_error (Other_errno 5)] = Read_fails (Other_errno 5)"
    by simp_all
  with read_full_exact_or_short
    [of "[Deliver [1], Read_error (Other_errno 5)]" "[0, 0, 0, 0]" 4 "Other_errno 0"]
  show "\<exists>r. read_full [Deliver [1], Read_error (Other_errno 5)]
          [0, 0, 0, 0] 4 (Other_errno 0) = Some r \<and> rd_ret r < 0"
    by auto
qed

lemma read_full_whole_record:
  assumes "length bs = n" and "0 < n"
  shows "read_full (Deliver bs # fd) buf n en
     = Some \<lparr>rd_ret = int n, rd_errno = en, rd_buf = bs @ drop n buf, rd_fd = fd\<rparr>"
proof -
  from assms have "bs \<noteq> []" by auto
  with assms show ?thesis
    by (simp add: read_full_def read_full_loop_chunk store_def)
qed

section \<open>Properties of \<^verbatim>\<open>write_full\<close>\<close>

text \<open>One pass of the loop, by what the descriptor holds next.\<close>

lemma write_full_loop_done:
  "\<not> off < n \<Longrightarrow> write_full_loop fd pipe buf n off en
     = (pipe, Some \<lparr>wr_ret = int off, wr_errno = en, wr_fd = fd\<rparr>)"
  by simp

lemma write_full_loop_Nil:
  "off < n \<Longrightarrow> write_full_loop [] pipe buf n off en = (pipe, None)"
  by simp

lemma write_full_loop_error:
  "off < n \<Longrightarrow> write_full_loop (Write_error e # fd) pipe buf n off en
     = (if e = EINTR then write_full_loop fd pipe buf n off e
        else (pipe, Some \<lparr>wr_ret = - 1, wr_errno = e, wr_fd = fd\<rparr>))"
  by simp

lemma write_full_loop_accept:
  "off < n \<Longrightarrow> write_full_loop (Accept k # fd) pipe buf n off en
     = write_full_loop fd (pipe @ take k (take (n - off) (drop off buf))) buf n
         (off + length (take k (take (n - off) (drop off buf)))) en"
  by simp

declare write_full_loop.simps [simp del]

text \<open>
  Whatever the descriptor does, the pipe receives a prefix of the buffer, in order and
  without repetition: all \<open>n\<close> bytes when \<open>write_full\<close> returns \<open>n\<close>, fewer when it
  returns \<open>-1\<close>.
\<close>

lemma write_full_loop_pipe:
  assumes "off \<le> n" and "n \<le> length buf"
    and "write_full_loop fd pipe buf n off en = (pipe', res)"
  shows "\<exists>k. off \<le> k \<and> k \<le> n \<and> pipe' = pipe @ take (k - off) (drop off buf)
     \<and> (case res of None \<Rightarrow> True
         | Some w \<Rightarrow> (wr_ret w = int n \<and> k = n) \<or> (wr_ret w = - 1 \<and> k < n))"
  using assms
proof (induction fd arbitrary: pipe off en)
  case Nil
  then show ?case
    by (cases "off < n") (auto simp: write_full_loop_done write_full_loop_Nil)
next
  case (Cons ev fd)
  show ?case
  proof (cases "off < n")
    case False
    with Cons.prems show ?thesis
      by (auto simp: write_full_loop_done)
  next
    case True
    show ?thesis
    proof (cases ev)
      case (Write_error e)
      show ?thesis
      proof (cases "e = EINTR")
        case True
        with \<open>off < n\<close> Write_error Cons.prems(3)
        have "write_full_loop fd pipe buf n off EINTR = (pipe', res)"
          by (simp add: write_full_loop_error)
        from Cons.IH [OF Cons.prems(1,2) this] show ?thesis .
      next
        case False
        with \<open>off < n\<close> Write_error Cons.prems show ?thesis
          by (auto simp: write_full_loop_error)
      qed
    next
      case (Accept a)
      let ?ws = "take a (take (n - off) (drop off buf))"
      have ws: "?ws = take (length ?ws) (drop off buf)"
        by (simp add: min_def)
      have len: "off + length ?ws \<le> n"
        using True by simp
      from True Accept Cons.prems(3)
      have "write_full_loop fd (pipe @ ?ws) buf n (off + length ?ws) en = (pipe', res)"
        by (simp add: write_full_loop_accept)
      from Cons.IH [OF len Cons.prems(2) this] obtain k where
        k: "off + length ?ws \<le> k" "k \<le> n"
           "pipe' = (pipe @ ?ws) @ take (k - (off + length ?ws)) (drop (off + length ?ws) buf)"
           "case res of None \<Rightarrow> True
            | Some w \<Rightarrow> (wr_ret w = int n \<and> k = n) \<or> (wr_ret w = - 1 \<and> k < n)"
        by blast
      have "?ws @ take (k - (off + length ?ws)) (drop (off + length ?ws) buf)
          = take (length ?ws) (drop off buf)
            @ take (k - off - length ?ws) (drop (length ?ws) (drop off buf))"
        using ws by (simp add: add.commute)
      also have "\<dots> = take (length ?ws + (k - off - length ?ws)) (drop off buf)"
        by (simp only: take_add)
      also have "length ?ws + (k - off - length ?ws) = k - off"
        using k(1) by simp
      finally have "pipe' = pipe @ take (k - off) (drop off buf)"
        using k(3) by simp
      with k show ?thesis
        by (intro exI [of _ k]) auto
    qed
  qed
qed

lemma write_full_sent:
  assumes "n \<le> length buf" and "write_full fd buf n en = (sent, res)"
  shows "\<exists>k\<le>n. sent = take k buf
     \<and> (case res of None \<Rightarrow> True
         | Some w \<Rightarrow> (wr_ret w = int n \<and> k = n) \<or> (wr_ret w = - 1 \<and> k < n))"
  using write_full_loop_pipe [of 0 n buf fd "[]" en sent res] assms
  by (auto simp: write_full_def)

lemma write_full_accept_all:
  assumes "n \<le> length buf" and "n \<le> k" and "0 < n"
  shows "write_full (Accept k # fd) buf n en
     = (take n buf, Some \<lparr>wr_ret = int n, wr_errno = en, wr_fd = fd\<rparr>)"
  using assms
  by (simp add: write_full_def write_full_loop_accept write_full_loop_done min_def)

section \<open>Properties of the worker\<close>

lemma length_snprintf_lit:
  "length buf = sz \<Longrightarrow> length s < sz \<Longrightarrow> length (snprintf_lit buf sz s) = sz"
  by (auto simp: snprintf_lit_def cbytes_def Let_def min_def)

lemma compute_valid:
  assumes "valid_response rp0" and "compute rq rp0 = Some rp"
  shows "valid_response rp"
  using assms
  by (auto simp: compute_def valid_response_def Let_def length_snprintf_lit ERROR_MAX_def
      split: if_splits option.splits)

lemma valid_memset_response: "valid_response memset_response"
  by (simp add: valid_response_def memset_response_def)

lemma written_append [simp]: "written (as @ bs) = written as @ written bs"
  by (induction as rule: written.induct) simp_all

lemma opens_append [simp]: "opens (as @ bs) = opens as + opens bs"
  by (induction as rule: opens.induct) simp_all

lemma spawned_append [simp]: "spawned (as @ bs) = spawned as @ spawned bs"
  by (induction as rule: spawned.induct) simp_all

lemma worker_faults:
  "compute rq memset_response = None \<Longrightarrow> worker rq opn en = (Killed_by_fault, [])"
  by (simp add: worker_def)

lemma worker_open_blocks:
  "compute rq memset_response = Some rp \<Longrightarrow>
   fst (worker rq Open_blocks en) = Blocked_for_ever
   \<and> written (snd (worker rq Open_blocks en)) = []
   \<and> opens (snd (worker rq Open_blocks en)) = 1"
  by (simp add: worker_def Let_def)

lemma worker_open_failed:
  "compute rq memset_response = Some rp \<Longrightarrow>
   fst (worker rq (Open_failed e) en) = Exited 0
   \<and> written (snd (worker rq (Open_failed e) en)) = []
   \<and> opens (snd (worker rq (Open_failed e) en)) = 1"
  by (simp add: worker_def Let_def)

lemma worker_opened:
  assumes "compute rq memset_response = Some rp"
    and "write_full wfd (encode_response rp) FIXED_RESP_LEN en = (sent, res)"
  shows "written (snd (worker rq (Opened wfd) en)) = sent
   \<and> opens (snd (worker rq (Opened wfd) en)) = 1
   \<and> fst (worker rq (Opened wfd) en)
        = (case res of None \<Rightarrow> Blocked_for_ever | Some w \<Rightarrow> Exited 0)
   \<and> (case res of None \<Rightarrow> True | Some w \<Rightarrow> last (snd (worker rq (Opened wfd) en)) = Close_resp)"
  using assms by (cases res) (simp_all add: worker_def Let_def)

lemma worker_sent_prefix:
  assumes "compute rq memset_response = Some rp"
    and "write_full wfd (encode_response rp) FIXED_RESP_LEN en = (sent, res)"
  shows "\<exists>k\<le>FIXED_RESP_LEN. sent = take k (encode_response rp)
     \<and> (case res of None \<Rightarrow> True
         | Some w \<Rightarrow> (wr_ret w = int FIXED_RESP_LEN \<and> k = FIXED_RESP_LEN)
                    \<or> (wr_ret w = - 1 \<and> k < FIXED_RESP_LEN))"
proof -
  have "valid_response rp"
    using valid_memset_response assms(1) by (rule compute_valid)
  then have "FIXED_RESP_LEN \<le> length (encode_response rp)"
    by (simp add: length_encode_response)
  from write_full_sent [OF this assms(2)] show ?thesis .
qed

text \<open>
  What holds for every request handed to a worker: it opens a reply FIFO at most once,
  and only the one the request names; what it puts there is a prefix of the encoded
  response, never more than \<open>FIXED_RESP_LEN\<close> bytes. When the computation produces a
  response and the open and \<open>write_full\<close> succeed, it has written exactly the encoded
  response, once, and closes and exits; when the open fails it exits having written
  nothing, and when the write fails it closes and exits having written less than one
  response.
\<close>

lemma worker_opens_reply_address:
  "Open_resp p \<in> set (snd (worker rq opn en)) \<Longrightarrow> p = cstring (resp_fifo rq)"
  by (auto simp: worker_def Let_def split: option.splits open_ret.splits prod.splits if_splits)

lemma worker_at_most_one_response:
  "opens (snd (worker rq opn en)) \<le> 1
   \<and> length (written (snd (worker rq opn en))) \<le> FIXED_RESP_LEN
   \<and> (\<forall>rp. compute rq memset_response = Some rp \<longrightarrow>
         written (snd (worker rq opn en))
           = take (length (written (snd (worker rq opn en)))) (encode_response rp))
   \<and> (\<forall>rp wfd sent w.
         compute rq memset_response = Some rp \<and> opn = Opened wfd
         \<and> write_full wfd (encode_response rp) FIXED_RESP_LEN en = (sent, Some w)
         \<and> 0 \<le> wr_ret w \<longrightarrow>
         fst (worker rq opn en) = Exited 0
         \<and> written (snd (worker rq opn en)) = encode_response rp
         \<and> length (written (snd (worker rq opn en))) = FIXED_RESP_LEN
         \<and> opens (snd (worker rq opn en)) = 1
         \<and> last (snd (worker rq opn en)) = Close_resp)
   \<and> (\<forall>rp e.
         compute rq memset_response = Some rp \<and> opn = Open_failed e \<longrightarrow>
         fst (worker rq opn en) = Exited 0
         \<and> written (snd (worker rq opn en)) = []
         \<and> opens (snd (worker rq opn en)) = 1)
   \<and> (\<forall>rp wfd sent w.
         compute rq memset_response = Some rp \<and> opn = Opened wfd
         \<and> write_full wfd (encode_response rp) FIXED_RESP_LEN en = (sent, Some w)
         \<and> wr_ret w < 0 \<longrightarrow>
         fst (worker rq opn en) = Exited 0
         \<and> length (written (snd (worker rq opn en))) < FIXED_RESP_LEN
         \<and> opens (snd (worker rq opn en)) = 1
         \<and> last (snd (worker rq opn en)) = Close_resp)"
proof -
  have valid: "length (encode_response rp) = FIXED_RESP_LEN"
    if "compute rq memset_response = Some rp" for rp
    using compute_valid [OF valid_memset_response that] by (rule length_encode_response)
  have safety: "opens (snd (worker rq opn en)) \<le> 1
      \<and> length (written (snd (worker rq opn en))) \<le> FIXED_RESP_LEN
      \<and> (\<forall>rp. compute rq memset_response = Some rp \<longrightarrow>
         written (snd (worker rq opn en))
           = take (length (written (snd (worker rq opn en)))) (encode_response rp))"
  proof (cases "compute rq memset_response")
    case None
    then show ?thesis by (simp add: worker_faults)
  next
    case (Some rp)
    show ?thesis
    proof (cases opn)
      case Open_blocks
      with Some worker_open_blocks [OF Some, of en] show ?thesis by simp
    next
      case (Open_failed e)
      with Some worker_open_failed [OF Some, of e en] show ?thesis by simp
    next
      case (Opened wfd)
      obtain sent res where wf: "write_full wfd (encode_response rp) FIXED_RESP_LEN en = (sent, res)"
        by (cases "write_full wfd (encode_response rp) FIXED_RESP_LEN en")
      from worker_sent_prefix [OF Some wf] obtain k where
        k: "k \<le> FIXED_RESP_LEN" "sent = take k (encode_response rp)"
        by blast
      with valid [OF Some] have "length sent = k" by simp
      with k Some Opened worker_opened [OF Some wf] show ?thesis by simp
    qed
  qed
  have success: "fst (worker rq opn en) = Exited 0
         \<and> written (snd (worker rq opn en)) = encode_response rp
         \<and> length (written (snd (worker rq opn en))) = FIXED_RESP_LEN
         \<and> opens (snd (worker rq opn en)) = 1
         \<and> last (snd (worker rq opn en)) = Close_resp"
    if c: "compute rq memset_response = Some rp" and o: "opn = Opened wfd"
      and wf: "write_full wfd (encode_response rp) FIXED_RESP_LEN en = (sent, Some w)"
      and ok: "0 \<le> wr_ret w" for rp wfd sent w
  proof -
    from worker_sent_prefix [OF c wf] ok obtain k where
      "sent = take k (encode_response rp)" "k = FIXED_RESP_LEN"
      by auto
    with valid [OF c] have "sent = encode_response rp" by simp
    with worker_opened [OF c wf] o valid [OF c] show ?thesis by simp
  qed
  have write_failure: "fst (worker rq opn en) = Exited 0
         \<and> length (written (snd (worker rq opn en))) < FIXED_RESP_LEN
         \<and> opens (snd (worker rq opn en)) = 1
         \<and> last (snd (worker rq opn en)) = Close_resp"
    if c: "compute rq memset_response = Some rp" and o: "opn = Opened wfd"
      and wf: "write_full wfd (encode_response rp) FIXED_RESP_LEN en = (sent, Some w)"
      and bad: "wr_ret w < 0" for rp wfd sent w
  proof -
    from worker_sent_prefix [OF c wf] bad obtain k where
      "sent = take k (encode_response rp)" "k < FIXED_RESP_LEN"
      by auto
    with valid [OF c] have "length sent < FIXED_RESP_LEN" by simp
    with worker_opened [OF c wf] o show ?thesis by simp
  qed
  have open_failure: "fst (worker rq opn en) = Exited 0
         \<and> written (snd (worker rq opn en)) = []
         \<and> opens (snd (worker rq opn en)) = 1"
    if "compute rq memset_response = Some rp" and "opn = Open_failed e" for rp e
    using that worker_open_failed [of rq rp e en] by simp
  from safety success open_failure write_failure show ?thesis
    by blast
qed

section \<open>Properties of the dispatch loop\<close>

lemma FIXED_REQ_LEN_pos: "0 < FIXED_REQ_LEN"
  by (simp add: FIXED_REQ_LEN_def)

lemma dispatch_iter_partial:
  assumes "\<not> stop_requested env"
    and "read_full (req_fd s) (stack_rq env) FIXED_REQ_LEN (srv_errno s) = Some r"
    and "0 < rd_ret r" and "rd_ret r < int FIXED_REQ_LEN"
  shows "dispatch_iter env s
     = Continue (emit [Log (Log_partial (rd_ret r))]
         (s\<lparr>req_fd := rd_fd r, srv_errno := rd_errno r\<rparr>))"
proof -
  from assms(3,4) have "nat (rd_ret r) < FIXED_REQ_LEN" by linarith
  with assms show ?thesis
    by (simp add: dispatch_iter_def Let_def)
qed

lemma dispatch_iter_whole:
  assumes "\<not> stop_requested env" and "valid_request rq"
    and "req_fd s = Deliver (encode_request rq) # fd"
    and "fork_returns env = Fork_parent cpid"
  shows "dispatch_iter env s
     = Continue (emit [Print (Print_recv rq), Log (Log_recv rq), Spawn rq]
         (s\<lparr>req_fd := fd\<rparr>))"
proof -
  have len: "length (encode_request rq) = FIXED_REQ_LEN"
    using assms(2) by (rule length_encode_request)
  have rd: "read_full (req_fd s) (stack_rq env) FIXED_REQ_LEN (srv_errno s)
      = Some \<lparr>rd_ret = int FIXED_REQ_LEN, rd_errno = srv_errno s,
             rd_buf = encode_request rq @ drop FIXED_REQ_LEN (stack_rq env), rd_fd = fd\<rparr>"
    unfolding assms(3) using len FIXED_REQ_LEN_pos by (rule read_full_whole_record)
  have dec: "decode_request (encode_request rq @ drop FIXED_REQ_LEN (stack_rq env)) = rq"
    using assms(2) by (rule decode_encode_request)
  show ?thesis
    using assms(1,4) FIXED_REQ_LEN_pos
    by (simp add: dispatch_iter_def rd dec Let_def emit_def)
qed

text \<open>
  The branch of line 157 does what its log line says whenever it is reached
  (\<open>dispatch_iter_partial\<close>), but \<open>read_full\<close> returns a short count only at end of
  file, and while the server holds \<^verbatim>\<open>dummy_w\<close> there is none: the bytes of a partial
  record stay in the buffer and the next bytes to arrive complete the record.
\<close>

lemma ending_Peer_closed: "ending fd = Peer_closed \<Longrightarrow> Deliver [] \<in> set fd"
  by (induction fd rule: ending.induct) (auto split: if_splits)

lemma short_read_needs_eof:
  assumes "read_full fd buf n en = Some r" and "0 \<le> rd_ret r" and "rd_ret r < int n"
  shows "Deliver [] \<in> set fd"
proof -
  from assms(1) have "map_option rd_ret (read_full fd buf n en) = Some (rd_ret r)"
    by simp
  with assms(2,3) have "ending fd = Peer_closed"
    unfolding read_full_ret by (cases "ending fd") (auto split: if_splits)
  then show ?thesis by (rule ending_Peer_closed)
qed

lemma no_short_read_while_dummy_w_held:
  assumes "dummy_w_held fd" and "read_full fd buf n en = Some r"
  shows "rd_ret r < 0 \<or> rd_ret r = int n"
proof (rule ccontr)
  assume "\<not> (rd_ret r < 0 \<or> rd_ret r = int n)"
  then have nonneg: "0 \<le> rd_ret r" and ne: "rd_ret r \<noteq> int n" by simp_all
  have "rd_ret r \<le> int n"
    using assms(2) read_full_ret [of fd buf n en]
    by (cases "ending fd") (auto split: if_splits)
  with ne have "rd_ret r < int n" by simp
  from short_read_needs_eof [OF assms(2) nonneg this] assms(1) show False
    by (simp add: dummy_w_held_def)
qed

lemma read_full_glued:
  assumes "bs \<noteq> []" and "length bs < n" and "n - length bs < length cs" and "length buf = n"
  shows "read_full (Deliver bs # Deliver cs # fd) buf n en
     = Some \<lparr>rd_ret = int n, rd_errno = en, rd_buf = bs @ take (n - length bs) cs,
             rd_fd = Deliver (drop (n - length bs) cs) # fd\<rparr>"
  using assms
  by (simp add: read_full_def read_full_loop_chunk read_full_loop_long_chunk store_def)

lemma dispatch_iter_glued:
  assumes "\<not> stop_requested env" and "length (stack_rq env) = FIXED_REQ_LEN"
    and "bs \<noteq> []" and "length bs < FIXED_REQ_LEN"
    and "FIXED_REQ_LEN - length bs < length cs"
    and "req_fd s = Deliver bs # Deliver cs # fd"
    and "fork_returns env = Fork_parent cpid"
  shows "dispatch_iter env s
     = Continue
         (emit [Print (Print_recv (decode_request (bs @ take (FIXED_REQ_LEN - length bs) cs))),
                Log (Log_recv (decode_request (bs @ take (FIXED_REQ_LEN - length bs) cs))),
                Spawn (decode_request (bs @ take (FIXED_REQ_LEN - length bs) cs))]
            (s\<lparr>req_fd := Deliver (drop (FIXED_REQ_LEN - length bs) cs) # fd\<rparr>))"
proof -
  have rd: "read_full (req_fd s) (stack_rq env) FIXED_REQ_LEN (srv_errno s)
      = Some \<lparr>rd_ret = int FIXED_REQ_LEN, rd_errno = srv_errno s,
             rd_buf = bs @ take (FIXED_REQ_LEN - length bs) cs,
             rd_fd = Deliver (drop (FIXED_REQ_LEN - length bs) cs) # fd\<rparr>"
    unfolding assms(6) using assms(3,4,5,2) by (rule read_full_glued)
  show ?thesis
    using assms(1,7) FIXED_REQ_LEN_pos
    by (simp add: dispatch_iter_def rd Let_def emit_def)
qed

text \<open>The ends of the encoded sample request for add.\<close>

lemma encode_sample_request_ends:
  "length (encode_request (sample_request ''add'' a b)) = 152"
  "take 2 (encode_request (sample_request ''add'' a b)) = [97, 100]"
  "drop 150 (encode_request (sample_request ''add'' a b)) = [0, 0]"
  using sample_request_fields(5) [of "''add''" a b]
  by (simp_all add: encode_request_def sample_request_operation)

text \<open>
  C6 fails on the code. A writer puts the two bytes \<^verbatim>\<open>ad\<close> into the request FIFO and
  closes; then the client with process id 77 sends \<^verbatim>\<open>add 6 9\<close>, twice. The server, which
  holds \<^verbatim>\<open>dummy_w\<close>, meets no end of file. Its first pass does not discard the two
  bytes: it completes them with the first 150 bytes of the request and spawns a worker
  for a record with the operation \<^verbatim>\<open>adad\<close>. The second pass starts two bytes before
  the second request, and so on: neither well-formed request is handed to a worker.
\<close>

theorem partial_record_misframes_stream:
  "dummy_w_held
     [Deliver [97, 100], Deliver (encode_request (sample_request ''add'' 6 9)),
      Deliver (encode_request (sample_request ''add'' 6 9))]
   \<and> (\<exists>s'. server_loop [sample_env, sample_env]
          \<lparr>req_fd = [Deliver [97, 100], Deliver (encode_request (sample_request ''add'' 6 9)),
                     Deliver (encode_request (sample_request ''add'' 6 9))],
           srv_errno = Other_errno 0, trace = []\<rparr> = Continue s'
        \<and> map operation (spawned (trace s')) = [[97, 100, 97, 100], [0, 0, 97, 100]]
        \<and> sample_request ''add'' 6 9 \<notin> set (spawned (trace s'))
        \<and> req_fd s' = [Deliver [0, 0]])"
proof -
  let ?E = "encode_request (sample_request ''add'' 6 9)"
  let ?s0 = "\<lparr>req_fd = [Deliver [97, 100], Deliver ?E, Deliver ?E],
              srv_errno = Other_errno 0, trace = []\<rparr>"
  let ?g1 = "decode_request ([97, 100] @ take 150 ?E)"
  let ?g2 = "decode_request ([0, 0] @ take 150 ?E)"
  let ?s1 = "emit [Print (Print_recv ?g1), Log (Log_recv ?g1), Spawn ?g1]
               (?s0\<lparr>req_fd := [Deliver [0, 0], Deliver ?E]\<rparr>)"
  let ?s2 = "emit [Print (Print_recv ?g2), Log (Log_recv ?g2), Spawn ?g2]
               (?s1\<lparr>req_fd := [Deliver [0, 0]]\<rparr>)"
  note E = encode_sample_request_ends [of 6 9]
  have held: "dummy_w_held [Deliver [97, 100], Deliver ?E, Deliver ?E]"
    using E(1) by (auto simp: dummy_w_held_def)
  have env: "\<not> stop_requested sample_env" "length (stack_rq sample_env) = FIXED_REQ_LEN"
    "fork_returns sample_env = Fork_parent 4711"
    by (simp_all add: sample_env_def)
  have n: "FIXED_REQ_LEN = 152"
    by (simp add: FIXED_REQ_LEN_def OP_MAX_def RESP_NAME_MAX_def)
  have step1: "dispatch_iter sample_env ?s0 = Continue ?s1"
    using dispatch_iter_glued [OF env(1,2), of "[97, 100]" ?E ?s0 "[Deliver ?E]" 4711] env(3) E
    by (simp add: n)
  have step2: "dispatch_iter sample_env ?s1 = Continue ?s2"
    using dispatch_iter_glued [OF env(1,2), of "[0, 0]" ?E ?s1 "[]" 4711] env(3) E
    by (simp add: n emit_def)
  have loop: "server_loop [sample_env, sample_env] ?s0 = Continue ?s2"
    by (simp only: server_loop.simps step1 step2 step.case)
  have ops: "operation ?g1 = [97, 100, 97, 100]" "operation ?g2 = [0, 0, 97, 100]"
    using E(2) by (simp_all add: decode_request_def OP_MAX_def)
  have good: "operation (sample_request ''add'' 6 9) = [97, 100, 100, 0]"
    by (rule sample_request_operation)
  have "?g1 \<noteq> sample_request ''add'' 6 9" "?g2 \<noteq> sample_request ''add'' 6 9"
    using ops good by auto
  then have f1: "map operation (spawned (trace ?s2)) = [[97, 100, 97, 100], [0, 0, 97, 100]]"
    and f2: "sample_request ''add'' 6 9 \<notin> set (spawned (trace ?s2))"
    and f3: "req_fd ?s2 = [Deliver [0, 0]]"
    using ops by (simp_all add: emit_def)
  show ?thesis
    by (intro conjI exI [of _ ?s2]) (rule held loop f1 f2 f3)+
qed

section \<open>A request that is never answered\<close>

text \<open>
  C8 fails on the code at the request \<^verbatim>\<open>div -9223372036854775808 -1\<close>, which the client
  builds and the server hands to a worker like any other. \<open>compute\<close> answers a zero
  divisor with an error response but does not guard the one quotient that overflows: the
  division faults, the worker is killed before it opens the reply FIFO, and no response
  is written although the open and the write would succeed at once.
\<close>

theorem overflow_request_gets_no_response:
  "(\<exists>s'. dispatch_iter sample_env
          \<lparr>req_fd = [Deliver (encode_request (sample_request ''div'' INT64_MIN (- 1)))],
           srv_errno = Other_errno 0, trace = []\<rparr> = Continue s'
        \<and> spawned (trace s') = [sample_request ''div'' INT64_MIN (- 1)])
   \<and> worker (sample_request ''div'' INT64_MIN (- 1)) (Opened [Accept 4096]) (Other_errno 0)
       = (Killed_by_fault, [])
   \<and> written (snd (worker (sample_request ''div'' INT64_MIN (- 1)) (Opened [Accept 4096])
        (Other_errno 0))) = []"
proof -
  let ?rq = "sample_request ''div'' INT64_MIN (- 1)"
  let ?s = "\<lparr>req_fd = [Deliver (encode_request ?rq)], srv_errno = Other_errno 0, trace = []\<rparr>"
  have valid: "valid_request ?rq"
    by (rule valid_sample_request) (simp add: OP_MAX_def)
  have "dispatch_iter sample_env ?s
      = Continue (emit [Print (Print_recv ?rq), Log (Log_recv ?rq), Spawn ?rq] (?s\<lparr>req_fd := []\<rparr>))"
    by (rule dispatch_iter_whole [OF _ valid, of _ _ _ 4711]) (simp_all add: sample_env_def)
  then have spawn: "\<exists>s'. dispatch_iter sample_env ?s = Continue s' \<and> spawned (trace s') = [?rq]"
    by (simp add: emit_def)
  have "compute ?rq memset_response = None"
    by (simp add: compute_def memcmp_eq_def sample_request_operation c_div64_def)
  then have "worker ?rq (Opened [Accept 4096]) (Other_errno 0) = (Killed_by_fault, [])"
    by (rule worker_faults)
  with spawn show ?thesis by simp
qed

end
